theory Spec2Isabelle
  imports Main
begin

section \<open>Calendar dates\<close>

text \<open>
  The program works with Python \<^verbatim>\<open>datetime.date\<close> values. A date is represented here by
  its proleptic Gregorian ordinal (what \<^verbatim>\<open>date.toordinal()\<close> returns: 0001-01-01 is day 1),
  so that \<^verbatim>\<open>d + timedelta(days=i)\<close> is \<open>d + i\<close>, \<^verbatim>\<open>(e - s).days\<close> is \<open>e - s\<close> and the
  comparison of two dates is the comparison of their ordinals. Python's dates range over
  the ordinals \<open>1 .. 3652059\<close> (0001-01-01 to 9999-12-31).
\<close>

type_synonym date = int



text \<open>
  The calendar arithmetic of the \<^verbatim>\<open>datetime\<close> module, for the months 1 to 12.
\<close>

definition is_leap :: "int \<Rightarrow> bool" where
  "is_leap year = (year mod 4 = 0 \<and> (year mod 100 \<noteq> 0 \<or> year mod 400 = 0))"

definition days_before_year :: "int \<Rightarrow> int" where
  "days_before_year year =
     (let y = year - 1 in y * 365 + y div 4 - y div 100 + y div 400)"


definition days_before_month :: "int \<Rightarrow> int \<Rightarrow> int" where
  "days_before_month year month =
     [0, 31, 59, 90, 120, 151, 181, 212, 243, 273, 304, 334] ! nat (month - 1)
       + (if month > 2 \<and> is_leap year then 1 else 0)"

definition ymd2ord :: "int \<Rightarrow> int \<Rightarrow> int \<Rightarrow> date" where
  "ymd2ord year month day = days_before_year year + days_before_month year month + day"


section \<open>Employees, events and the resolver's mapping\<close>

text \<open>
  An entry of the flat employee list: the \<^verbatim>\<open>name\<close> and \<^verbatim>\<open>location\<close> keys that
  \<^verbatim>\<open>flatten_employees\<close> copies, and the three date lists that step 7 of \<^verbatim>\<open>main\<close> adds.
\<close>

record employee =
  name :: string
  location :: string
  PTO :: "date list"
  Travel :: "date list"
  Holiday :: "date list"

text \<open>
  An event as \<^verbatim>\<open>load_calendar_events\<close> builds it. The \<^verbatim>\<open>type\<close> key is the tag of the feed,
  \<^verbatim>\<open>"P"\<close> or \<^verbatim>\<open>"T"\<close> in \<^verbatim>\<open>main\<close>; it is kept as a string, as the code compares it.
\<close>

record event =
  ev_name :: string
  start_date :: date
  end_date :: date
  ev_type :: string

text \<open>
  The mapping returned by \<^verbatim>\<open>get_employee_event_mappings_from_llm\<close>: event title to a list
  of tokens. Its content is not under the program's control, so it is a parameter.
\<close>

type_synonym resolver = "string \<rightharpoonup> string list"

text \<open>\<^verbatim>\<open>processed_data\<close>: employee name to (date to status code).\<close>

type_synonym matrix = "string \<rightharpoonup> (date \<rightharpoonup> string)"

datatype py_error = KeyError

section \<open>Steps 4 to 8 of \<^verbatim>\<open>main\<close>\<close>

text \<open>Step 4: the events that overlap the reporting window.\<close>

definition events_in_range :: "date \<Rightarrow> date \<Rightarrow> event list \<Rightarrow> event list" where
  "events_in_range report_start report_end all_events =
     filter (\<lambda>e. start_date e < report_end \<and> end_date e > report_start) all_events"

text \<open>
  Step 6: each event gets its \<^verbatim>\<open>employee\<close> key (here the second component of a pair);
  a title without a mapping gets the empty list and is added to
  \<^verbatim>\<open>unmatched_event_names\<close>.
\<close>

fun associate :: "resolver \<Rightarrow> event list \<Rightarrow> string set \<Rightarrow> (event \<times> string list) list \<times> string set" where
  "associate m [] unmatched = ([], unmatched)"
| "associate m (e # es) unmatched =
     (case m (ev_name e) of
        Some mapped_employees \<Rightarrow>
          (let (r, u) = associate m es unmatched in ((e, mapped_employees) # r, u))
      | None \<Rightarrow>
          (let (r, u) = associate m es (insert (ev_name e) unmatched) in ((e, []) # r, u)))"

text \<open>Step 7 starts by giving every employee three empty lists.\<close>

definition reset_lists :: "employee list \<Rightarrow> employee list" where
  "reset_lists employees = map (\<lambda>emp. emp\<lparr>PTO := [], Travel := [], Holiday := []\<rparr>) employees"

text \<open>
  \<^verbatim>\<open>employee_map = {emp['name']: emp for emp in employees}\<close>. The values are the very
  objects of the list, so the map is modelled by the position in the list; a later
  employee of the same name replaces an earlier one.
\<close>

fun employee_map_from :: "nat \<Rightarrow> employee list \<Rightarrow> (string \<rightharpoonup> nat) \<Rightarrow> (string \<rightharpoonup> nat)" where
  "employee_map_from i [] m = m"
| "employee_map_from i (emp # emps) m = employee_map_from (Suc i) emps (m(name emp \<mapsto> i))"

definition employee_map :: "employee list \<Rightarrow> (string \<rightharpoonup> nat)" where
  "employee_map employees = employee_map_from 0 employees Map.empty"

text \<open>\<^verbatim>\<open>[start + timedelta(days=i) for i in range((end - start).days)]\<close>\<close>

definition event_dates :: "event \<Rightarrow> date list" where
  "event_dates e = map (\<lambda>i. start_date e + int i) [0 ..< nat (end_date e - start_date e)]"

text \<open>The body of the loop over the tokens of one event.\<close>

definition apply_token :: "(string \<rightharpoonup> nat) \<Rightarrow> event \<Rightarrow> employee list \<Rightarrow> string \<Rightarrow> employee list" where
  "apply_token emap e employees name_or_tag =
     (if name_or_tag = ''_HOLIDAY_US'' then
        map (\<lambda>emp. if location emp = ''US''
                   then emp\<lparr>Holiday := Holiday emp @ event_dates e\<rparr> else emp) employees
      else if name_or_tag = ''_HOLIDAY_FRANCE'' then
        map (\<lambda>emp. if location emp = ''France''
                   then emp\<lparr>Holiday := Holiday emp @ event_dates e\<rparr> else emp) employees
      else if name_or_tag = ''_HOLIDAY_COMPANY'' then
        map (\<lambda>emp. emp\<lparr>Holiday := Holiday emp @ event_dates e\<rparr>) employees
      else
        (case emap name_or_tag of
           Some i \<Rightarrow>
             (if ev_type e = ''P'' then
                employees[i := (employees ! i)\<lparr>PTO := PTO (employees ! i) @ event_dates e\<rparr>]
              else if ev_type e = ''T'' then
                employees[i := (employees ! i)\<lparr>Travel := Travel (employees ! i) @ event_dates e\<rparr>]
              else employees)
         | None \<Rightarrow> employees))"

text \<open>The body of the loop over the events: an event without tokens is skipped.\<close>

definition apply_event :: "(string \<rightharpoonup> nat) \<Rightarrow> employee list \<Rightarrow> event \<times> string list \<Rightarrow> employee list" where
  "apply_event emap employees ev =
     (case ev of (e, tokens) \<Rightarrow>
        if tokens = [] then employees
        else foldl (apply_token emap e) employees tokens)"

definition populate :: "employee list \<Rightarrow> (event \<times> string list) list \<Rightarrow> employee list" where
  "populate employees evs =
     (let emps = reset_lists employees
      in foldl (apply_event (employee_map emps)) emps evs)"

text \<open>
  Step 8. \<^verbatim>\<open>processed_data[emp['name']][d] = code\<close> looks the row of the employee up
  (a \<^verbatim>\<open>KeyError\<close> when it is missing) and stores the code in it.
\<close>

definition init_processed :: "employee list \<Rightarrow> matrix" where
  "init_processed employees = foldl (\<lambda>pd emp. pd(name emp \<mapsto> Map.empty)) Map.empty employees"

definition set_status :: "string \<Rightarrow> string \<Rightarrow> py_error + matrix \<Rightarrow> date \<Rightarrow> py_error + matrix" where
  "set_status n code r d =
     (case r of
        Inl err \<Rightarrow> Inl err
      | Inr pd \<Rightarrow>
          (case pd n of
             None \<Rightarrow> Inl KeyError
           | Some row \<Rightarrow> Inr (pd(n \<mapsto> row(d \<mapsto> code)))))"

definition process_employee :: "py_error + matrix \<Rightarrow> employee \<Rightarrow> py_error + matrix" where
  "process_employee r emp =
     (let r1 = foldl (set_status (name emp) ''P'') r (PTO emp);
          r2 = foldl (set_status (name emp) ''T'') r1 (Travel emp)
      in foldl (set_status (name emp) ''H'') r2 (Holiday emp))"

definition build_processed :: "employee list \<Rightarrow> py_error + matrix" where
  "build_processed employees =
     foldl process_employee (Inr (init_processed employees)) employees"

text \<open>
  Steps 4 to 8 together. When no event overlaps the window, \<^verbatim>\<open>main\<close> prints a message and
  builds nothing (\<open>None\<close>); otherwise it builds the set of unmatched titles and
  \<^verbatim>\<open>processed_data\<close>.
\<close>

definition main_steps ::
  "employee list \<Rightarrow> event list \<Rightarrow> resolver \<Rightarrow> date \<Rightarrow> date
     \<Rightarrow> py_error + (string set \<times> matrix) option" where
  "main_steps employees all_events event_to_employee_map report_start report_end =
     (let evs = events_in_range report_start report_end all_events in
      if evs = [] then Inr None
      else
        (case associate event_to_employee_map evs {} of (resolved, unmatched) \<Rightarrow>
           (case build_processed (populate employees resolved) of
              Inl err \<Rightarrow> Inl err
            | Inr pd \<Rightarrow> Inr (Some (unmatched, pd)))))"

text \<open>
  The builder in the order the specification states it, to be compared with step 8 as the
  source has it: one pass over all employees for the PTO dates, then one for the Travel
  dates, then one for the Holiday dates.
\<close>

definition pass :: "string \<Rightarrow> (employee \<Rightarrow> date list) \<Rightarrow> py_error + matrix \<Rightarrow> employee list
    \<Rightarrow> py_error + matrix" where
  "pass code dates_of r employees =
     foldl (\<lambda>r emp. foldl (set_status (name emp) code) r (dates_of emp)) r employees"

definition build_three_passes :: "employee list \<Rightarrow> py_error + matrix" where
  "build_three_passes employees =
     pass ''H'' Holiday (pass ''T'' Travel (pass ''P'' PTO (Inr (init_processed employees)) employees)
       employees) employees"

section \<open>Year, month, day and the \<^verbatim>\<open>strftime\<close> keys\<close>













section \<open>The header of the grid in \<^verbatim>\<open>generate_excel\<close>\<close>



text \<open>
  \<^verbatim>\<open>dates_by_month_week\<close> is a \<^verbatim>\<open>defaultdict\<close> of \<^verbatim>\<open>defaultdict(list)\<close>. A dictionary keeps
  its keys in the order of their first insertion, so it is an association list:
  \<open>dd_update k dflt f\<close> replaces the value \<open>v\<close> at key \<open>k\<close> by \<open>f v\<close> where the key stands, and
  appends the key with \<open>f dflt\<close> when it is new.
\<close>

fun dd_update :: "'k \<Rightarrow> 'v \<Rightarrow> ('v \<Rightarrow> 'v) \<Rightarrow> ('k \<times> 'v) list \<Rightarrow> ('k \<times> 'v) list" where
  "dd_update k dflt f [] = [(k, f dflt)]"
| "dd_update k dflt f ((k', v) # kvs) =
     (if k' = k then (k', f v) # kvs else (k', v) # dd_update k dflt f kvs)"









section \<open>Auxiliary definitions for the proofs\<close>

text \<open>
  What one employee's three lists do to a row of \<^verbatim>\<open>processed_data\<close>, and what the whole
  list of employees does to the row of a given name.
\<close>

definition mark_all :: "string \<Rightarrow> date list \<Rightarrow> (date \<rightharpoonup> string) \<Rightarrow> (date \<rightharpoonup> string)" where
  "mark_all c ds row = (\<lambda>d. if d \<in> set ds then Some c else row d)"

definition paint :: "employee \<Rightarrow> (date \<rightharpoonup> string) \<Rightarrow> (date \<rightharpoonup> string)" where
  "paint emp row = (\<lambda>d. if d \<in> set (Holiday emp) then Some ''H''
                        else if d \<in> set (Travel emp) then Some ''T''
                        else if d \<in> set (PTO emp) then Some ''P'' else row d)"

definition row_of :: "employee list \<Rightarrow> string \<Rightarrow> (date \<rightharpoonup> string) \<Rightarrow> (date \<rightharpoonup> string)" where
  "row_of employees n row = foldl (\<lambda>r emp. if name emp = n then paint emp r else r) row employees"

text \<open>What one pass of the three-pass builder does to the matrix.\<close>

definition mark_named :: "string \<Rightarrow> (employee \<Rightarrow> date list) \<Rightarrow> employee list \<Rightarrow> matrix \<Rightarrow> matrix" where
  "mark_named code dates_of emps pd =
     (\<lambda>n. case pd n of None \<Rightarrow> None
          | Some row \<Rightarrow> Some (\<lambda>d. if \<exists>emp \<in> set emps. name emp = n \<and> d \<in> set (dates_of emp)
                                  then Some code else row d))"

text \<open>
  The three holiday-scope markers, and when a marker applies to an employee's location.
\<close>

definition is_scope :: "string \<Rightarrow> bool" where
  "is_scope tag = (tag = ''_HOLIDAY_US'' \<or> tag = ''_HOLIDAY_FRANCE'' \<or> tag = ''_HOLIDAY_COMPANY'')"

definition scope_covers :: "string \<Rightarrow> string \<Rightarrow> bool" where
  "scope_covers tag loc =
     ((tag = ''_HOLIDAY_US'' \<and> loc = ''US'') \<or> (tag = ''_HOLIDAY_FRANCE'' \<and> loc = ''France'')
        \<or> tag = ''_HOLIDAY_COMPANY'')"

text \<open>
  The dates that a list of resolved events appends to the \<^verbatim>\<open>Holiday\<close> list of an employee
  at a given location, and to the \<^verbatim>\<open>PTO\<close> or \<^verbatim>\<open>Travel\<close> list (event type \<open>ty\<close>) of the
  employee at position \<open>i\<close>.
\<close>

definition holiday_of :: "string \<Rightarrow> (event \<times> string list) list \<Rightarrow> date list" where
  "holiday_of loc evs =
     concat (map (\<lambda>(e, ts). concat (map (\<lambda>t. if scope_covers t loc then event_dates e else []) ts)) evs)"

definition typed_of :: "string \<Rightarrow> (string \<rightharpoonup> nat) \<Rightarrow> nat \<Rightarrow> (event \<times> string list) list \<Rightarrow> date list" where
  "typed_of ty emap i evs =
     concat (map (\<lambda>(e, ts). concat (map (\<lambda>t. if \<not> is_scope t \<and> emap t = Some i \<and> ev_type e = ty
                                              then event_dates e else []) ts)) evs)"

definition add_dates :: "(string \<rightharpoonup> nat) \<Rightarrow> (event \<times> string list) list \<Rightarrow> nat \<Rightarrow> employee \<Rightarrow> employee" where
  "add_dates emap evs i emp =
     emp\<lparr>PTO := PTO emp @ typed_of ''P'' emap i evs,
         Travel := Travel emp @ typed_of ''T'' emap i evs,
         Holiday := Holiday emp @ holiday_of (location emp) evs\<rparr>"

definition emap_ok :: "(string \<rightharpoonup> nat) \<Rightarrow> nat \<Rightarrow> bool" where
  "emap_ok emap n = (\<forall>t j. emap t = Some j \<longrightarrow> j < n)"

text \<open>
  Closed forms of step 6 for one event and of \<^verbatim>\<open>processed_data\<close>, and the accessors used
  to state what a run of steps 4 to 8 produced.
\<close>

definition resolve :: "resolver \<Rightarrow> event \<Rightarrow> event \<times> string list" where
  "resolve m e = (e, case m (ev_name e) of Some ts \<Rightarrow> ts | None \<Rightarrow> [])"

definition matrix_of :: "employee list \<Rightarrow> (event \<times> string list) list \<Rightarrow> matrix" where
  "matrix_of emps evs =
     (\<lambda>n. if n \<in> name ` set emps then Some (row_of (populate emps evs) n Map.empty) else None)"

fun status_of :: "py_error + (string set \<times> matrix) option \<Rightarrow> string \<Rightarrow> date \<Rightarrow> string option" where
  "status_of (Inr (Some (unmatched, pd))) n d = (case pd n of Some row \<Rightarrow> row d | None \<Rightarrow> None)"
| "status_of (Inr None) n d = None"
| "status_of (Inl err) n d = None"

fun unmatched_of :: "py_error + (string set \<times> matrix) option \<Rightarrow> string set option" where
  "unmatched_of (Inr (Some (unmatched, pd))) = Some unmatched"
| "unmatched_of (Inr None) = None"
| "unmatched_of (Inl err) = None"

definition drop_token :: "string \<Rightarrow> resolver \<Rightarrow> resolver" where
  "drop_token t m = (\<lambda>n. map_option (filter (\<lambda>x. x \<noteq> t)) (m n))"



definition group_by :: "('a \<Rightarrow> 'k) \<Rightarrow> 'a list \<Rightarrow> ('k \<times> 'a list) list" where
  "group_by key xs = foldl (\<lambda>g x. dd_update (key x) [] (\<lambda>v. v @ [x]) g) [] xs"






text \<open>The rosters and events of the scenarios.\<close>

definition alice :: employee where
  "alice = \<lparr>name = ''Alice'', location = ''US'', PTO = [], Travel = [], Holiday = []\<rparr>"

definition bob :: employee where
  "bob = \<lparr>name = ''Bob'', location = ''France'', PTO = [], Travel = [], Holiday = []\<rparr>"

definition carol :: employee where
  "carol = \<lparr>name = ''Carol'', location = ''US'', PTO = [1, 2, 3], Travel = [2, 3], Holiday = [3]\<rparr>"

definition site_visit :: event where
  "site_visit = \<lparr>ev_name = ''Site Visit'', start_date = ymd2ord 2024 3 4, end_date = ymd2ord 2024 3 7, ev_type = ''T''\<rparr>"

definition us_holiday :: event where
  "us_holiday = \<lparr>ev_name = ''Independence Day'', start_date = ymd2ord 2024 7 4,
                  end_date = ymd2ord 2024 7 5, ev_type = ''P''\<rparr>"

definition team_lunch :: event where
  "team_lunch = \<lparr>ev_name = ''Team Lunch'', start_date = ymd2ord 2024 3 11,
                  end_date = ymd2ord 2024 3 12, ev_type = ''P''\<rparr>"

definition early_pto :: event where
  "early_pto = \<lparr>ev_name = ''PTO: Alice'', start_date = ymd2ord 2024 2 26,
                  end_date = ymd2ord 2024 3 5, ev_type = ''P''\<rparr>"

section \<open>Step 8: the status matrix\<close>

lemma mark_all_Cons: "mark_all c ds (row(a \<mapsto> c)) = mark_all c (a # ds) row"
  by (auto simp: mark_all_def fun_eq_iff)

lemma foldl_set_status:
  "pd n = Some row \<Longrightarrow>
   foldl (set_status n c) (Inr pd) ds = Inr (pd(n \<mapsto> mark_all c ds row))"
proof (induction ds arbitrary: pd row)
  case Nil
  then show ?case by (simp add: map_upd_triv mark_all_def)
next
  case (Cons a ds)
  have "foldl (set_status n c) (Inr pd) (a # ds) = foldl (set_status n c) (Inr (pd(n \<mapsto> row(a \<mapsto> c)))) ds"
    using Cons.prems by (simp add: set_status_def)
  also have "\<dots> = Inr ((pd(n \<mapsto> row(a \<mapsto> c)))(n \<mapsto> mark_all c ds (row(a \<mapsto> c))))"
    by (rule Cons.IH) (rule fun_upd_same)
  finally show ?case by (simp only: fun_upd_upd mark_all_Cons)
qed

lemma foldl_set_status_upd:
  "foldl (set_status n c) (Inr (pd(n \<mapsto> row))) ds = Inr (pd(n \<mapsto> mark_all c ds row))"
proof -
  have "foldl (set_status n c) (Inr (pd(n \<mapsto> row))) ds
          = Inr ((pd(n \<mapsto> row))(n \<mapsto> mark_all c ds row))"
    by (rule foldl_set_status) (rule fun_upd_same)
  then show ?thesis by (simp only: fun_upd_upd)
qed

lemma process_employee_Inr:
  assumes row: "pd (name emp) = Some row"
  shows "process_employee (Inr pd) emp = Inr (pd(name emp \<mapsto> paint emp row))"
proof -
  have paint: "mark_all ''H'' (Holiday emp) (mark_all ''T'' (Travel emp) (mark_all ''P'' (PTO emp) row))
          = paint emp row"
    by (auto simp: paint_def mark_all_def fun_eq_iff)
  have "process_employee (Inr pd) emp =
        foldl (set_status (name emp) ''H'')
          (foldl (set_status (name emp) ''T'')
             (foldl (set_status (name emp) ''P'') (Inr pd) (PTO emp)) (Travel emp)) (Holiday emp)"
    by (simp add: process_employee_def)
  also have "\<dots> = Inr (pd(name emp \<mapsto> paint emp row))"
    by (simp only: foldl_set_status [of pd "name emp" row, OF row] foldl_set_status_upd paint)
  finally show ?thesis .
qed

lemma foldl_process_employee:
  "name ` set emps \<subseteq> dom pd \<Longrightarrow>
   foldl process_employee (Inr pd) emps =
     Inr (\<lambda>n. case pd n of None \<Rightarrow> None | Some row \<Rightarrow> Some (row_of emps n row))"
proof (induction emps arbitrary: pd)
  case Nil
  then show ?case by (auto simp: row_of_def fun_eq_iff split: option.splits)
next
  case (Cons emp emps)
  from Cons.prems obtain row where row: "pd (name emp) = Some row" by auto
  have dom: "name ` set emps \<subseteq> dom (pd(name emp \<mapsto> paint emp row))"
    using Cons.prems by auto
  have "foldl process_employee (Inr pd) (emp # emps)
          = foldl process_employee (Inr (pd(name emp \<mapsto> paint emp row))) emps"
    using row by (simp add: process_employee_Inr)
  also note Cons.IH [OF dom]
  also have "(\<lambda>n. case (pd(name emp \<mapsto> paint emp row)) n of None \<Rightarrow> None
                   | Some row \<Rightarrow> Some (row_of emps n row))
           = (\<lambda>n. case pd n of None \<Rightarrow> None | Some row \<Rightarrow> Some (row_of (emp # emps) n row))"
    using row by (auto simp: row_of_def fun_eq_iff split: option.splits)
  finally show ?case .
qed

lemma init_processed_apply:
  "init_processed emps n = (if n \<in> name ` set emps then Some Map.empty else None)"
proof -
  have "foldl (\<lambda>pd emp. pd(name emp \<mapsto> Map.empty)) pd emps n =
        (if n \<in> name ` set emps then Some Map.empty else pd n)" for pd :: matrix
    by (induction emps arbitrary: pd) auto
  then show ?thesis by (simp add: init_processed_def)
qed

lemma build_processed_eq:
  "build_processed emps =
     Inr (\<lambda>n. if n \<in> name ` set emps then Some (row_of emps n Map.empty) else None)"
proof -
  have "name ` set emps \<subseteq> dom (init_processed emps)"
    by (auto simp: init_processed_apply dom_def)
  then show ?thesis
    unfolding build_processed_def
    by (simp add: foldl_process_employee init_processed_apply fun_eq_iff)
qed

lemma row_of_notin: "n \<notin> name ` set emps \<Longrightarrow> row_of emps n row = row"
  unfolding row_of_def by (induction emps arbitrary: row) auto

lemma row_of_distinct:
  "distinct (map name emps) \<Longrightarrow> emp \<in> set emps \<Longrightarrow> row_of emps (name emp) row = paint emp row"
proof (induction emps arbitrary: row)
  case Nil then show ?case by simp
next
  case (Cons a emps)
  show ?case
  proof (cases "emp = a")
    case True
    with Cons.prems have "name a \<notin> name ` set emps" by auto
    then have "row_of emps (name a) (paint a row) = paint a row" by (rule row_of_notin)
    with True show ?thesis by (simp add: row_of_def)
  next
    case False
    with Cons.prems have "emp \<in> set emps" "name a \<noteq> name emp" "distinct (map name emps)" by auto
    with Cons.IH [of row] show ?thesis by (simp add: row_of_def)
  qed
qed

section \<open>Step 7: the date lists\<close>

lemma add_dates_Nil [simp]: "add_dates emap [] i emp = emp"
  by (simp add: add_dates_def typed_of_def holiday_of_def)

lemma add_dates_fields [simp]:
  "name (add_dates emap evs i emp) = name emp"
  "location (add_dates emap evs i emp) = location emp"
  by (simp_all add: add_dates_def)

lemma add_dates_Cons:
  "add_dates emap (ev # evs) i emp = add_dates emap evs i (add_dates emap [ev] i emp)"
  by (simp add: add_dates_def typed_of_def holiday_of_def)

lemma add_dates_tokens_Cons:
  "add_dates emap [(e, t # ts)] i emp = add_dates emap [(e, ts)] i (add_dates emap [(e, [t])] i emp)"
  by (simp add: add_dates_def typed_of_def holiday_of_def)

lemma add_dates_no_tokens [simp]: "add_dates emap [(e, [])] i emp = emp"
  by (simp add: add_dates_def typed_of_def holiday_of_def)

lemma length_apply_token [simp]: "length (apply_token emap e emps t) = length emps"
  by (simp add: apply_token_def split: option.splits)

lemma apply_token_nth:
  assumes "emap_ok emap (length emps)" and "i < length emps"
  shows "apply_token emap e emps t ! i = add_dates emap [(e, [t])] i (emps ! i)"
proof (cases "is_scope t")
  case True
  then show ?thesis
    using assms(2)
    by (auto simp: apply_token_def is_scope_def add_dates_def typed_of_def holiday_of_def scope_covers_def)
next
  case False
  then have ns: "t \<noteq> ''_HOLIDAY_US''" "t \<noteq> ''_HOLIDAY_FRANCE''" "t \<noteq> ''_HOLIDAY_COMPANY''"
    by (auto simp: is_scope_def)
  show ?thesis
  proof (cases "emap t")
    case None
    then show ?thesis
      using ns False by (simp add: apply_token_def add_dates_def typed_of_def holiday_of_def scope_covers_def)
  next
    case (Some j)
    with assms(1) have "j < length emps" by (auto simp: emap_ok_def)
    then show ?thesis
      using ns False Some assms(2)
      by (auto simp: apply_token_def add_dates_def typed_of_def holiday_of_def scope_covers_def nth_list_update)
  qed
qed

lemma foldl_apply_token:
  "emap_ok emap (length emps) \<Longrightarrow>
   length (foldl (apply_token emap e) emps ts) = length emps \<and>
   (\<forall>i < length emps. foldl (apply_token emap e) emps ts ! i = add_dates emap [(e, ts)] i (emps ! i))"
proof (induction ts arbitrary: emps)
  case Nil
  then show ?case by simp
next
  case (Cons t ts)
  have ok: "emap_ok emap (length (apply_token emap e emps t))"
    using Cons.prems by simp
  show ?case
    using Cons.IH [OF ok] Cons.prems
    by (simp add: apply_token_nth add_dates_tokens_Cons [of emap e t ts])
qed

lemma apply_event_nth:
  assumes "emap_ok emap (length emps)"
  shows "length (apply_event emap emps ev) = length emps"
    and "i < length emps \<Longrightarrow> apply_event emap emps ev ! i = add_dates emap [ev] i (emps ! i)"
  using foldl_apply_token [OF assms]
  by (auto simp: apply_event_def split: prod.splits)

lemma foldl_apply_event:
  "emap_ok emap (length emps) \<Longrightarrow>
   length (foldl (apply_event emap) emps evs) = length emps \<and>
   (\<forall>i < length emps. foldl (apply_event emap) emps evs ! i = add_dates emap evs i (emps ! i))"
proof (induction evs arbitrary: emps)
  case Nil
  then show ?case by simp
next
  case (Cons ev evs)
  have ok: "emap_ok emap (length (apply_event emap emps ev))"
    using Cons.prems by (simp add: apply_event_nth)
  show ?case
    using Cons.IH [OF ok] Cons.prems
    by (simp add: apply_event_nth add_dates_Cons [of emap ev evs])
qed

subsection \<open>The name index\<close>

lemma employee_map_from_notin:
  "t \<notin> name ` set emps \<Longrightarrow> employee_map_from i emps m t = m t"
  by (induction i emps m rule: employee_map_from.induct) auto

lemma employee_map_from_Some:
  "employee_map_from i emps m t = Some k \<Longrightarrow>
   (t \<notin> name ` set emps \<and> m t = Some k) \<or> (i \<le> k \<and> k < i + length emps \<and> name (emps ! (k - i)) = t)"
proof (induction emps arbitrary: i m)
  case Nil
  then show ?case by simp
next
  case (Cons emp emps)
  let ?m = "m(name emp \<mapsto> i)"
  from Cons.prems have "employee_map_from (Suc i) emps ?m t = Some k" by simp
  then have "(t \<notin> name ` set emps \<and> ?m t = Some k) \<or>
             (Suc i \<le> k \<and> k < Suc i + length emps \<and> name (emps ! (k - Suc i)) = t)"
    by (rule Cons.IH)
  then show ?case
  proof
    assume a: "t \<notin> name ` set emps \<and> ?m t = Some k"
    show ?thesis
    proof (cases "t = name emp")
      case True
      with a show ?thesis by simp
    next
      case False
      with a show ?thesis by simp
    qed
  next
    assume b: "Suc i \<le> k \<and> k < Suc i + length emps \<and> name (emps ! (k - Suc i)) = t"
    then have "k - i = Suc (k - Suc i)" by arith
    with b show ?thesis by simp
  qed
qed

lemma employee_map_from_in:
  "t \<in> name ` set emps \<Longrightarrow> \<exists>k. employee_map_from i emps m t = Some k"
proof (induction emps arbitrary: i m)
  case Nil
  then show ?case by simp
next
  case (Cons emp emps)
  let ?m = "m(name emp \<mapsto> i)"
  show ?case
  proof (cases "t \<in> name ` set emps")
    case True
    then have "\<exists>k. employee_map_from (Suc i) emps ?m t = Some k" by (rule Cons.IH)
    then show ?thesis by simp
  next
    case False
    with Cons.prems have "t = name emp" by auto
    with False show ?thesis by (simp add: employee_map_from_notin)
  qed
qed

lemma employee_map_from_distinct:
  "distinct (map name emps) \<Longrightarrow> j < length emps \<Longrightarrow>
   employee_map_from i emps m (name (emps ! j)) = Some (i + j)"
proof (induction emps arbitrary: i j m)
  case Nil
  then show ?case by simp
next
  case (Cons emp emps)
  let ?m = "m(name emp \<mapsto> i)"
  show ?case
  proof (cases j)
    case 0
    with Cons.prems show ?thesis by (simp add: employee_map_from_notin)
  next
    case (Suc j')
    with Cons.prems have "distinct (map name emps)" "j' < length emps" by auto
    then have "employee_map_from (Suc i) emps ?m (name (emps ! j')) = Some (Suc i + j')"
      by (rule Cons.IH)
    with Suc show ?thesis by simp
  qed
qed

lemma employee_map_from_names:
  "map name emps' = map name emps \<Longrightarrow> employee_map_from i emps' m = employee_map_from i emps m"
proof (induction emps arbitrary: i m emps')
  case Nil
  then show ?case by simp
next
  case (Cons emp emps)
  let ?m = "m(name emp \<mapsto> i)"
  from Cons.prems obtain emp' es' where es: "emps' = emp' # es'" "name emp' = name emp"
    and "map name es' = map name emps"
    by (cases emps') auto
  then have "employee_map_from (Suc i) es' ?m = employee_map_from (Suc i) emps ?m"
    by (intro Cons.IH)
  with es show ?case by simp
qed

lemma employee_map_reset: "employee_map (reset_lists emps) = employee_map emps"
  unfolding employee_map_def
  by (rule employee_map_from_names) (simp add: reset_lists_def)

lemma employee_map_Some:
  "employee_map emps t = Some k \<Longrightarrow> k < length emps \<and> name (emps ! k) = t"
  using employee_map_from_Some [of 0 emps Map.empty t k] by (simp add: employee_map_def)

lemma employee_map_None: "employee_map emps t = None \<longleftrightarrow> t \<notin> name ` set emps"
  using employee_map_from_in [of t emps 0 Map.empty] employee_map_from_notin [of t emps 0 Map.empty]
  by (auto simp: employee_map_def simp del: fun_upd_apply)

lemma employee_map_distinct:
  "distinct (map name emps) \<Longrightarrow> j < length emps \<Longrightarrow> employee_map emps (name (emps ! j)) = Some j"
  using employee_map_from_distinct [of emps j 0 Map.empty] by (simp add: employee_map_def)

lemma emap_ok_employee_map: "emap_ok (employee_map emps) (length emps)"
  by (auto simp: emap_ok_def dest: employee_map_Some)

subsection \<open>Closed form of step 7\<close>

lemma length_reset_lists [simp]: "length (reset_lists emps) = length emps"
  by (simp add: reset_lists_def)

lemma length_populate [simp]: "length (populate emps evs) = length emps"
  using foldl_apply_event [of "employee_map (reset_lists emps)" "reset_lists emps" evs]
    emap_ok_employee_map [of "reset_lists emps"]
  by (simp add: populate_def Let_def)

lemma populate_nth:
  assumes "i < length emps"
  shows "populate emps evs ! i =
     (emps ! i)\<lparr>PTO := typed_of ''P'' (employee_map emps) i evs,
                 Travel := typed_of ''T'' (employee_map emps) i evs,
                 Holiday := holiday_of (location (emps ! i)) evs\<rparr>"
proof -
  have ok: "emap_ok (employee_map (reset_lists emps)) (length (reset_lists emps))"
    by (rule emap_ok_employee_map)
  have i: "i < length (reset_lists emps)"
    using assms by (simp add: reset_lists_def)
  have "populate emps evs ! i
          = add_dates (employee_map (reset_lists emps)) evs i (reset_lists emps ! i)"
    using foldl_apply_event [OF ok, of evs] i by (simp add: populate_def Let_def)
  also have "\<dots> = (emps ! i)\<lparr>PTO := typed_of ''P'' (employee_map emps) i evs,
                 Travel := typed_of ''T'' (employee_map emps) i evs,
                 Holiday := holiday_of (location (emps ! i)) evs\<rparr>"
proof -
    have "reset_lists emps ! i = (emps ! i)\<lparr>PTO := [], Travel := [], Holiday := []\<rparr>"
      using assms by (simp add: reset_lists_def)
    then show ?thesis
      by (simp add: add_dates_def employee_map_reset)
  qed
  finally show ?thesis .
qed

lemma map_name_populate [simp]: "map name (populate emps evs) = map name emps"
  by (simp add: list_eq_iff_nth_eq populate_nth)

section \<open>The whole run\<close>

lemma associate_eq:
  "associate m evs u =
     (map (resolve m) evs, u \<union> {n. \<exists>e \<in> set evs. ev_name e = n \<and> m n = None})"
  by (induction evs arbitrary: u) (auto simp: resolve_def split: option.splits)

lemma set_event_dates: "set (event_dates e) = {d. start_date e \<le> d \<and> d < end_date e}"
proof -
  have "d \<in> set (event_dates e) \<longleftrightarrow> start_date e \<le> d \<and> d < end_date e" for d
  proof
    assume "d \<in> set (event_dates e)"
    then show "start_date e \<le> d \<and> d < end_date e"
      by (auto simp: event_dates_def)
  next
    assume a: "start_date e \<le> d \<and> d < end_date e"
    then have "nat (d - start_date e) < nat (end_date e - start_date e)"
      and "d = start_date e + int (nat (d - start_date e))" by auto
    then show "d \<in> set (event_dates e)"
      unfolding event_dates_def set_map set_upt by (metis atLeastLessThan_iff image_eqI le0)
  qed
  then show ?thesis by blast
qed

lemma set_holiday_of:
  "set (holiday_of loc evs) =
     {d. \<exists>(e, ts) \<in> set evs. \<exists>t \<in> set ts. scope_covers t loc \<and> d \<in> set (event_dates e)}"
  by (auto simp: holiday_of_def split: if_splits)

lemma set_typed_of:
  "set (typed_of ty emap i evs) =
     {d. \<exists>(e, ts) \<in> set evs. \<exists>t \<in> set ts. \<not> is_scope t \<and> emap t = Some i \<and> ev_type e = ty
           \<and> d \<in> set (event_dates e)}"
  by (auto simp: typed_of_def split: if_splits)

lemma main_steps_eq:
  "main_steps emps all_events m rs re =
     (if events_in_range rs re all_events = [] then Inr None
      else Inr (Some ({n. \<exists>e \<in> set (events_in_range rs re all_events). ev_name e = n \<and> m n = None},
                      matrix_of emps (map (resolve m) (events_in_range rs re all_events)))))"
proof -
  have "name ` set (populate emps evs) = name ` set emps" for evs
    using map_name_populate [of emps evs] by (metis set_map)
  then show ?thesis
    by (simp add: main_steps_def Let_def associate_eq build_processed_eq matrix_of_def)
qed

lemma matrix_of_distinct:
  assumes "distinct (map name emps)" and "i < length emps"
  shows "matrix_of emps evs (name (emps ! i)) =
     Some (\<lambda>d. if d \<in> set (holiday_of (location (emps ! i)) evs) then Some ''H''
               else if d \<in> set (typed_of ''T'' (employee_map emps) i evs) then Some ''T''
               else if d \<in> set (typed_of ''P'' (employee_map emps) i evs) then Some ''P''
               else None)"
proof -
  let ?p = "populate emps evs"
  have d: "distinct (map name ?p)" using assms(1) by simp
  have m: "?p ! i \<in> set ?p" using assms(2) by simp
  have n: "name (?p ! i) = name (emps ! i)"
    using assms(2) by (simp add: populate_nth)
  have "row_of ?p (name (?p ! i)) Map.empty = paint (?p ! i) Map.empty"
    using d m by (rule row_of_distinct)
  moreover have "name (emps ! i) \<in> name ` set emps"
    using assms(2) by simp
  ultimately show ?thesis
    using assms(2) by (simp add: matrix_of_def n paint_def populate_nth cong: if_cong)
qed

lemma row_of_Some:
  "row_of emps n row d = Some c \<Longrightarrow>
   row d = Some c \<or> (\<exists>emp \<in> set emps. name emp = n \<and>
      (d \<in> set (PTO emp) \<or> d \<in> set (Travel emp) \<or> d \<in> set (Holiday emp)))"
proof (induction emps arbitrary: row)
  case Nil
  then show ?case by (simp add: row_of_def)
next
  case (Cons a emps)
  let ?r = "if name a = n then paint a row else row"
  from Cons.prems have "row_of emps n ?r d = Some c" by (simp add: row_of_def)
  then have "?r d = Some c \<or> (\<exists>emp \<in> set emps. name emp = n \<and>
      (d \<in> set (PTO emp) \<or> d \<in> set (Travel emp) \<or> d \<in> set (Holiday emp)))"
    by (rule Cons.IH)
  then show ?case
    by (auto simp: paint_def split: if_splits)
qed

lemma row_of_cong_sets:
  "list_all2 (\<lambda>a b. name a = name b \<and> set (PTO a) = set (PTO b) \<and> set (Travel a) = set (Travel b)
                  \<and> set (Holiday a) = set (Holiday b)) xs ys \<Longrightarrow>
   row_of xs n row = row_of ys n row"
proof (induction xs ys arbitrary: row rule: list_all2_induct)
  case Nil
  then show ?case by simp
next
  case (Cons x xs y ys)
  from Cons.hyps(1) have "paint x row = paint y row" "name x = name y"
    by (simp_all add: paint_def cong: if_cong)
  moreover have "row_of xs n r = row_of ys n r" for r
    by (rule Cons.IH)
  ultimately show ?case by (simp add: row_of_def)
qed

lemma populate_cong:
  assumes "\<And>ty i. typed_of ty (employee_map emps) i evs' = typed_of ty (employee_map emps) i evs"
    and "\<And>loc. holiday_of loc evs' = holiday_of loc evs"
  shows "populate emps evs' = populate emps evs"
  by (simp add: list_eq_iff_nth_eq populate_nth assms)

lemma concat_map_filter_Nil:
  "f t = [] \<Longrightarrow> concat (map f (filter (\<lambda>x. x \<noteq> t) ts)) = concat (map f ts)"
  by (induction ts) auto

lemma typed_of_removeAll:
  "snd (resolve m e) = [] \<Longrightarrow>
   typed_of ty emap i (map (resolve m) (removeAll e evs)) = typed_of ty emap i (map (resolve m) evs)"
  by (induction evs) (auto simp: typed_of_def resolve_def)

lemma holiday_of_removeAll:
  "snd (resolve m e) = [] \<Longrightarrow>
   holiday_of loc (map (resolve m) (removeAll e evs)) = holiday_of loc (map (resolve m) evs)"
  by (induction evs) (auto simp: holiday_of_def resolve_def)

lemma snd_resolve_drop_token:
  "snd (resolve (drop_token t m) e) = filter (\<lambda>x. x \<noteq> t) (snd (resolve m e))"
  by (cases "m (ev_name e)") (simp_all add: resolve_def drop_token_def)

lemma typed_of_resolve:
  "typed_of ty emap i (map (resolve m) evs) =
     concat (map (\<lambda>e. concat (map (\<lambda>t. if \<not> is_scope t \<and> emap t = Some i \<and> ev_type e = ty
                                       then event_dates e else []) (snd (resolve m e)))) evs)"
  by (simp add: typed_of_def resolve_def comp_def)

lemma holiday_of_resolve:
  "holiday_of loc (map (resolve m) evs) =
     concat (map (\<lambda>e. concat (map (\<lambda>t. if scope_covers t loc then event_dates e else [])
                                  (snd (resolve m e)))) evs)"
  by (simp add: holiday_of_def resolve_def comp_def)

lemma typed_of_drop_token:
  assumes "emap t = None"
  shows "typed_of ty emap i (map (resolve (drop_token t m)) evs) = typed_of ty emap i (map (resolve m) evs)"
  unfolding typed_of_resolve snd_resolve_drop_token
  using assms by (simp add: concat_map_filter_Nil)

lemma holiday_of_drop_token:
  assumes "\<not> is_scope t"
  shows "holiday_of loc (map (resolve (drop_token t m)) evs) = holiday_of loc (map (resolve m) evs)"
proof -
  have "\<not> scope_covers t loc" using assms by (auto simp: is_scope_def scope_covers_def)
  then show ?thesis
    unfolding holiday_of_resolve snd_resolve_drop_token
    by (simp add: concat_map_filter_Nil)
qed

lemma set_typed_of_mono:
  "set evs' = set evs \<Longrightarrow> set (typed_of ty emap i evs') = set (typed_of ty emap i evs)"
  by (simp only: set_typed_of)

lemma set_holiday_of_mono:
  "set evs' = set evs \<Longrightarrow> set (holiday_of loc evs') = set (holiday_of loc evs)"
  by (simp only: set_holiday_of)

lemma matrix_of_set_cong:
  assumes "set evs' = set evs"
  shows "matrix_of emps evs' = matrix_of emps evs"
proof -
  have "list_all2 (\<lambda>a b. name a = name b \<and> set (PTO a) = set (PTO b) \<and> set (Travel a) = set (Travel b)
                  \<and> set (Holiday a) = set (Holiday b)) (populate emps evs') (populate emps evs)"
    by (simp add: list_all2_conv_all_nth populate_nth
          set_typed_of_mono [OF assms] set_holiday_of_mono [OF assms])
  then have "row_of (populate emps evs') n r = row_of (populate emps evs) n r" for n r
    by (rule row_of_cong_sets)
  then show ?thesis by (simp add: matrix_of_def cong: if_cong)
qed

lemma main_steps_set_cong:
  assumes "set all_events' = set all_events"
  shows "main_steps emps all_events' m rs re = main_steps emps all_events m rs re"
proof -
  let ?evs' = "events_in_range rs re all_events'" and ?evs = "events_in_range rs re all_events"
  have s: "set ?evs' = set ?evs"
    using assms by (simp add: events_in_range_def)
  then have "set (map (resolve m) ?evs') = set (map (resolve m) ?evs)" by simp
  then have "matrix_of emps (map (resolve m) ?evs') = matrix_of emps (map (resolve m) ?evs)"
    by (rule matrix_of_set_cong)
  moreover have "?evs' = [] \<longleftrightarrow> ?evs = []"
    using s by (metis set_empty)
  ultimately show ?thesis
    by (simp add: main_steps_eq s)
qed

lemma populate_single:
  assumes "i < length employees"
  shows "populate employees [(e, ts)] ! i =
     (employees ! i)\<lparr>
        PTO := concat (map (\<lambda>t. if \<not> is_scope t \<and> employee_map employees t = Some i \<and> ev_type e = ''P''
                                 then event_dates e else []) ts),
        Travel := concat (map (\<lambda>t. if \<not> is_scope t \<and> employee_map employees t = Some i \<and> ev_type e = ''T''
                                 then event_dates e else []) ts),
        Holiday := concat (map (\<lambda>t. if scope_covers t (location (employees ! i))
                                 then event_dates e else []) ts)\<rparr>"
  using assms by (simp add: populate_nth typed_of_def holiday_of_def)

lemma employee_map_eq_iff:
  assumes "distinct (map name employees)" and "i < length employees"
  shows "employee_map employees t = Some i \<longleftrightarrow> t = name (employees ! i)"
proof
  assume "employee_map employees t = Some i"
  then show "t = name (employees ! i)" by (auto dest: employee_map_Some)
next
  assume "t = name (employees ! i)"
  then show "employee_map employees t = Some i"
    using assms by (simp add: employee_map_distinct)
qed

lemma distinct_event_dates: "distinct (event_dates e)"
  by (simp add: event_dates_def distinct_map inj_on_def)

lemma length_event_dates: "length (event_dates e) = nat (end_date e - start_date e)"
  by (simp add: event_dates_def)

lemma status_of_main_steps:
  assumes "distinct (map name employees)" and "i < length employees"
    and "events_in_range rs re all_events \<noteq> []"
  shows "status_of (main_steps employees all_events m rs re) (name (employees ! i)) d =
     (let evs = map (resolve m) (events_in_range rs re all_events) in
      if d \<in> set (holiday_of (location (employees ! i)) evs) then Some ''H''
      else if d \<in> set (typed_of ''T'' (employee_map employees) i evs) then Some ''T''
      else if d \<in> set (typed_of ''P'' (employee_map employees) i evs) then Some ''P''
      else None)"
  using assms(3) by (simp add: main_steps_eq matrix_of_distinct [OF assms(1,2)] Let_def)

lemma populate_removeAll:
  assumes "snd (resolve m e) = []"
  shows "populate employees (map (resolve m) (removeAll e evs)) = populate employees (map (resolve m) evs)"
  by (rule populate_cong) (simp_all add: typed_of_removeAll [OF assms] holiday_of_removeAll [OF assms])

subsection \<open>The three passes\<close>

lemma dom_mark_named [simp]: "dom (mark_named code dates_of emps pd) = dom pd"
  by (auto simp: mark_named_def dom_def split: option.splits)

lemma pass_eq:
  "name ` set emps \<subseteq> dom pd \<Longrightarrow>
   pass code dates_of (Inr pd) emps = Inr (mark_named code dates_of emps pd)"
proof (induction emps arbitrary: pd)
  case Nil
  then show ?case by (auto simp: pass_def mark_named_def fun_eq_iff split: option.splits)
next
  case (Cons emp emps)
  from Cons.prems obtain row where row: "pd (name emp) = Some row" by auto
  let ?pd = "pd(name emp \<mapsto> mark_all code (dates_of emp) row)"
  have dom: "name ` set emps \<subseteq> dom ?pd" using Cons.prems by auto
  have "pass code dates_of (Inr pd) (emp # emps) = pass code dates_of (Inr ?pd) emps"
    by (simp add: pass_def foldl_set_status [of pd "name emp" row, OF row])
  also have "\<dots> = Inr (mark_named code dates_of emps ?pd)"
    using dom by (rule Cons.IH)
  also have "mark_named code dates_of emps ?pd = mark_named code dates_of (emp # emps) pd"
    using row by (auto simp: mark_named_def mark_all_def fun_eq_iff split: option.splits)
  finally show ?case .
qed

lemma build_three_passes_eq:
  "build_three_passes emps =
     Inr (mark_named ''H'' Holiday emps (mark_named ''T'' Travel emps
            (mark_named ''P'' PTO emps (init_processed emps))))"
proof -
  have d: "name ` set emps \<subseteq> dom (init_processed emps)"
    by (auto simp: init_processed_apply dom_def)
  show ?thesis
    unfolding build_three_passes_def
    by (simp add: pass_eq d)
qed

lemma three_passes_distinct:
  assumes "distinct (map name emps)"
  shows "build_three_passes emps = build_processed emps"
proof -
  have row: "(\<lambda>d. if \<exists>e \<in> set emps. name e = n \<and> d \<in> set (Holiday e) then Some ''H''
               else if \<exists>e \<in> set emps. name e = n \<and> d \<in> set (Travel e) then Some ''T''
               else if \<exists>e \<in> set emps. name e = n \<and> d \<in> set (PTO e) then Some ''P''
               else None) = row_of emps n Map.empty"
    if "n \<in> name ` set emps" for n
  proof -
    from that obtain emp where emp: "emp \<in> set emps" "name emp = n" by auto
    have uniq: "e = emp" if "e \<in> set emps" "name e = n" for e
      using that emp assms by (metis distinct_map inj_on_def)
    have "(\<exists>e \<in> set emps. name e = n \<and> d \<in> set (f e)) \<longleftrightarrow> d \<in> set (f emp)"
      for d and f :: "employee \<Rightarrow> date list"
    proof
      assume "\<exists>e \<in> set emps. name e = n \<and> d \<in> set (f e)"
      then obtain e where e: "e \<in> set emps" "name e = n" "d \<in> set (f e)" by blast
      from e(1,2) have "e = emp" by (rule uniq)
      with e(3) show "d \<in> set (f emp)" by simp
    next
      assume "d \<in> set (f emp)"
      with emp show "\<exists>e \<in> set emps. name e = n \<and> d \<in> set (f e)" by blast
    qed
    moreover have "row_of emps n Map.empty = paint emp Map.empty"
      using row_of_distinct [OF assms emp(1)] emp(2) by simp
    ultimately show ?thesis by (simp add: paint_def cong: if_cong)
  qed
  have "mark_named ''H'' Holiday emps (mark_named ''T'' Travel emps
            (mark_named ''P'' PTO emps (init_processed emps)))
        = (\<lambda>n. if n \<in> name ` set emps then Some (row_of emps n Map.empty) else None)"
  proof
    fix n
    show "mark_named ''H'' Holiday emps (mark_named ''T'' Travel emps
            (mark_named ''P'' PTO emps (init_processed emps))) n
        = (if n \<in> name ` set emps then Some (row_of emps n Map.empty) else None)"
    proof (cases "n \<in> name ` set emps")
      case True
      have "mark_named ''H'' Holiday emps (mark_named ''T'' Travel emps
            (mark_named ''P'' PTO emps (init_processed emps))) n
          = Some (\<lambda>d. if \<exists>e \<in> set emps. name e = n \<and> d \<in> set (Holiday e) then Some ''H''
               else if \<exists>e \<in> set emps. name e = n \<and> d \<in> set (Travel e) then Some ''T''
               else if \<exists>e \<in> set emps. name e = n \<and> d \<in> set (PTO e) then Some ''P''
               else None)"
        using True by (simp add: mark_named_def init_processed_apply)
      with True row [OF True] show ?thesis by simp
    next
      case False
      then show ?thesis by (simp add: mark_named_def init_processed_apply)
    qed
  qed
  then show ?thesis
    by (simp only: build_three_passes_eq build_processed_eq)
qed

section \<open>Precedence of the status codes\<close>

text \<open>
  \<^bold>\<open>C1.\<close> Step 8 writes, for each employee, first the \<open>P\<close> entries, then the \<open>T\<close> entries, then
  the \<open>H\<close> entries, each store overwriting what the row held for that day. With the names
  of the roster distinct (the data model's assumption), this builds the same matrix as
  applying all PTO dates first, then all Travel dates, then all Holiday dates, and the row
  of an employee is decided by membership alone: a day in the Holiday list shows \<open>H\<close>
  whatever else it is in, a day in the Travel list and not in the Holiday list shows \<open>T\<close>
  even when it is in the PTO list, a day only in the PTO list shows \<open>P\<close>, and every other
  day has no entry. The step raises no \<^verbatim>\<open>KeyError\<close>.
\<close>

theorem status_precedence:
  assumes "distinct (map name employees)" and "emp \<in> set employees"
  shows "build_processed employees = build_three_passes employees
         \<and> (\<exists>pd row. build_processed employees = Inr pd \<and> pd (name emp) = Some row \<and>
              (\<forall>d. row d = (if d \<in> set (Holiday emp) then Some ''H''
                             else if d \<in> set (Travel emp) then Some ''T''
                             else if d \<in> set (PTO emp) then Some ''P'' else None)))"
proof -
  have "row_of employees (name emp) Map.empty = paint emp Map.empty"
    using assms by (rule row_of_distinct)
  then have "\<exists>pd row. build_processed employees = Inr pd \<and> pd (name emp) = Some row \<and>
              (\<forall>d. row d = (if d \<in> set (Holiday emp) then Some ''H''
                             else if d \<in> set (Travel emp) then Some ''T''
                             else if d \<in> set (PTO emp) then Some ''P'' else None))"
    using assms(2) by (simp add: build_processed_eq paint_def)
  with three_passes_distinct [OF assms(1)] show ?thesis by simp
qed

text \<open>
  An employee with PTO on days 1 to 3, Travel on days 2 and 3 and a Holiday on day 3.
\<close>

theorem status_precedence_witness:
  "distinct (map name [carol]) \<and> carol \<in> set [carol] \<and>
   (\<exists>pd row. build_processed [carol] = Inr pd \<and> pd ''Carol'' = Some row \<and>
       row 1 = Some ''P'' \<and> row 2 = Some ''T'' \<and> row 3 = Some ''H'' \<and> row 4 = None)"
proof -
  have h1: "distinct (map name [carol])" by simp
  have h2: "carol \<in> set [carol]" by simp
  from status_precedence [OF h1 h2] obtain pd row where
    "build_processed [carol] = Inr pd" and "pd (name carol) = Some row"
    and r: "\<And>d. row d = (if d \<in> set (Holiday carol) then Some ''H''
                          else if d \<in> set (Travel carol) then Some ''T''
                          else if d \<in> set (PTO carol) then Some ''P'' else None)"
    by blast
  moreover have "row 1 = Some ''P''" "row 2 = Some ''T''" "row 3 = Some ''H''" "row 4 = None"
    by (simp_all add: r carol_def)
  ultimately show ?thesis
    using h1 h2 by (auto simp: carol_def)
qed

section \<open>Keys of the status matrix\<close>

text \<open>
  \<^bold>\<open>C2.\<close> The claim that every key's day lies within the reporting window fails: step 4 keeps
  every event that overlaps the window and nothing clips its days. A PTO from 2024-02-26
  to 2024-03-05 in a window starting on 2024-03-01 marks 2024-02-26.
\<close>

theorem day_outside_window:
  "status_of (main_steps [alice, bob] [early_pto] [''PTO: Alice'' \<mapsto> [''Alice'']]
      (ymd2ord 2024 3 1) (ymd2ord 2024 8 28)) ''Alice'' (ymd2ord 2024 2 26) = Some ''P''
   \<and> ymd2ord 2024 2 26 < ymd2ord 2024 3 1"
  by code_simp

text \<open>
  \<^bold>\<open>C2, as amended.\<close> In the matrix of a run, every key's employee name is a name of the
  roster, and every key's day lies within \<open>[start_date, end_date)\<close> of an event that
  overlaps the reporting window (\<open>start_date < report_end\<close> and \<open>end_date > report_start\<close>);
  the day itself is not clipped to the window.
\<close>

theorem matrix_keys:
  assumes "main_steps employees all_events m report_start report_end = Inr (Some (unmatched, pd))"
    and "pd n = Some row" and "row d = Some c"
  shows "n \<in> name ` set employees \<and>
         (\<exists>e \<in> set all_events. start_date e < report_end \<and> end_date e > report_start
               \<and> start_date e \<le> d \<and> d < end_date e)"
proof -
  let ?evs = "events_in_range report_start report_end all_events"
  let ?R = "map (resolve m) ?evs"
  from assms(1) have pd: "pd = matrix_of employees ?R"
    by (simp add: main_steps_eq split: if_splits)
  with assms(2) have n: "n \<in> name ` set employees"
    and row: "row = row_of (populate employees ?R) n Map.empty"
    by (auto simp: matrix_of_def split: if_splits)
  from row assms(3) obtain emp where emp: "emp \<in> set (populate employees ?R)"
    and d: "d \<in> set (PTO emp) \<or> d \<in> set (Travel emp) \<or> d \<in> set (Holiday emp)"
    using row_of_Some [of "populate employees ?R" n Map.empty d c] by auto
  from emp obtain i where i: "i < length employees" and "emp = populate employees ?R ! i"
    by (auto simp: in_set_conv_nth)
  with d have "d \<in> set (typed_of ''P'' (employee_map employees) i ?R)
             \<or> d \<in> set (typed_of ''T'' (employee_map employees) i ?R)
             \<or> d \<in> set (holiday_of (location (employees ! i)) ?R)"
    by (simp add: populate_nth)
  then obtain e ts where "(e, ts) \<in> set ?R" and "d \<in> set (event_dates e)"
    unfolding set_typed_of set_holiday_of by blast
  then have "e \<in> set ?evs" and "start_date e \<le> d \<and> d < end_date e"
    by (auto simp: resolve_def set_event_dates)
  then have "\<exists>e \<in> set all_events. start_date e < report_end \<and> end_date e > report_start
               \<and> start_date e \<le> d \<and> d < end_date e"
    by (auto simp: events_in_range_def)
  with n show ?thesis by simp
qed

text \<open>
  The run of the counterexample: its key (Alice, 2024-02-26) comes from an overlapping event.
\<close>

theorem matrix_keys_witness:
  "main_steps [alice] [early_pto] [''PTO: Alice'' \<mapsto> [''Alice'']] (ymd2ord 2024 3 1) (ymd2ord 2024 8 28)
     = Inr (Some ({}, matrix_of [alice] [(early_pto, [''Alice''])]))
   \<and> ''Alice'' \<in> name ` set [alice]
   \<and> (\<exists>e \<in> set [early_pto]. start_date e < ymd2ord 2024 8 28 \<and> end_date e > ymd2ord 2024 3 1
               \<and> start_date e \<le> ymd2ord 2024 2 26 \<and> ymd2ord 2024 2 26 < end_date e)"
proof -
  let ?m = "[''PTO: Alice'' \<mapsto> [''Alice'']]"
  let ?row = "\<lambda>d. if d \<in> set (holiday_of (location ([alice] ! 0)) [(early_pto, [''Alice''])]) then Some ''H''
               else if d \<in> set (typed_of ''T'' (employee_map [alice]) 0 [(early_pto, [''Alice''])]) then Some ''T''
               else if d \<in> set (typed_of ''P'' (employee_map [alice]) 0 [(early_pto, [''Alice''])]) then Some ''P''
               else None"
  have evs: "events_in_range (ymd2ord 2024 3 1) (ymd2ord 2024 8 28) [early_pto] = [early_pto]"
    by code_simp
  have h1: "main_steps [alice] [early_pto] ?m (ymd2ord 2024 3 1) (ymd2ord 2024 8 28)
     = Inr (Some ({}, matrix_of [alice] [(early_pto, [''Alice''])]))"
    by (simp add: main_steps_eq evs) (simp add: resolve_def early_pto_def)
  have h2: "matrix_of [alice] [(early_pto, [''Alice''])] ''Alice'' = Some ?row"
    using matrix_of_distinct [of "[alice]" 0 "[(early_pto, [''Alice''])]"] by (simp add: alice_def)
  have "ymd2ord 2024 2 26 \<in> set (typed_of ''P'' (employee_map [alice]) 0 [(early_pto, [''Alice''])])"
    by code_simp
  moreover have "holiday_of (location ([alice] ! 0)) [(early_pto, [''Alice''])] = []"
    by code_simp
  moreover have "typed_of ''T'' (employee_map [alice]) 0 [(early_pto, [''Alice''])] = []"
    by code_simp
  ultimately have h3: "?row (ymd2ord 2024 2 26) = Some ''P''" by simp
  from matrix_keys [OF h1 h2 h3] h1 show ?thesis by simp
qed

section \<open>Date expansion\<close>

text \<open>
  \<^bold>\<open>C5.\<close> The dates of an event are exactly the days \<open>d\<close> with
  \<open>start_date \<le> d < end_date\<close>, each once, so an event ending the day after it starts has
  the single day \<open>start_date\<close>. Each token of the resolved list appends one copy of these
  dates: to the PTO or Travel list (by the event's type) of the employee it names, to the
  Holiday list of the employees its scope covers. The ``Site Visit'' Travel event from
  2024-03-04 to 2024-03-07 resolved to Alice and Bob gives each of them Travel on 03-04,
  03-05 and 03-06 and nothing else: six assignments.
\<close>

theorem date_expansion:
  assumes "distinct (map name employees)" and "i < length employees"
  shows
    "set (event_dates e) = {d. start_date e \<le> d \<and> d < end_date e}
     \<and> distinct (event_dates e)
     \<and> length (event_dates e) = nat (end_date e - start_date e)
     \<and> event_dates (e\<lparr>end_date := start_date e + 1\<rparr>) = [start_date e]
     \<and> PTO (populate employees [(e, ts)] ! i) =
          concat (map (\<lambda>t. if \<not> is_scope t \<and> t = name (employees ! i) \<and> ev_type e = ''P''
                           then event_dates e else []) ts)
     \<and> Travel (populate employees [(e, ts)] ! i) =
          concat (map (\<lambda>t. if \<not> is_scope t \<and> t = name (employees ! i) \<and> ev_type e = ''T''
                           then event_dates e else []) ts)
     \<and> Holiday (populate employees [(e, ts)] ! i) =
          concat (map (\<lambda>t. if scope_covers t (location (employees ! i))
                           then event_dates e else []) ts)
     \<and> populate [alice, bob] [(site_visit, [''Alice'', ''Bob''])] =
          [alice\<lparr>Travel := [ymd2ord 2024 3 4, ymd2ord 2024 3 5, ymd2ord 2024 3 6]\<rparr>,
           bob\<lparr>Travel := [ymd2ord 2024 3 4, ymd2ord 2024 3 5, ymd2ord 2024 3 6]\<rparr>]"
proof -
  have one: "event_dates (e\<lparr>end_date := start_date e + 1\<rparr>) = [start_date e]"
    by (simp add: event_dates_def)
  have scen: "populate [alice, bob] [(site_visit, [''Alice'', ''Bob''])] =
          [alice\<lparr>Travel := [ymd2ord 2024 3 4, ymd2ord 2024 3 5, ymd2ord 2024 3 6]\<rparr>,
           bob\<lparr>Travel := [ymd2ord 2024 3 4, ymd2ord 2024 3 5, ymd2ord 2024 3 6]\<rparr>]"
    by code_simp
  show ?thesis
    using assms(2)
    by (simp add: set_event_dates distinct_event_dates length_event_dates one scen
        populate_single employee_map_eq_iff [OF assms] del: set_concat)
qed

text \<open>
  Bob's lists in the scenario.
\<close>

theorem date_expansion_witness:
  "distinct (map name [alice, bob]) \<and> (1::nat) < length [alice, bob]
   \<and> Travel (populate [alice, bob] [(site_visit, [''Alice'', ''Bob''])] ! 1)
       = [ymd2ord 2024 3 4, ymd2ord 2024 3 5, ymd2ord 2024 3 6]
   \<and> PTO (populate [alice, bob] [(site_visit, [''Alice'', ''Bob''])] ! 1) = []
   \<and> Holiday (populate [alice, bob] [(site_visit, [''Alice'', ''Bob''])] ! 1) = []"
proof -
  have h1: "distinct (map name [alice, bob])" by (simp add: alice_def bob_def)
  have h2: "(1::nat) < length [alice, bob]" by simp
  have sv: "event_dates site_visit = [ymd2ord 2024 3 4, ymd2ord 2024 3 5, ymd2ord 2024 3 6]"
    by code_simp
  from date_expansion [OF h1 h2, of site_visit "[''Alice'', ''Bob'']"]
  show ?thesis
    using h1 by (simp add: sv is_scope_def scope_covers_def alice_def bob_def site_visit_def)
qed

section \<open>Holiday scopes\<close>

text \<open>
  \<^bold>\<open>C6.\<close> A \<^verbatim>\<open>_HOLIDAY_US\<close> token gives the event's dates to the Holiday list of exactly the
  employees whose location is \<open>US\<close>, \<^verbatim>\<open>_HOLIDAY_FRANCE\<close> to those whose location is
  \<open>France\<close>, and \<^verbatim>\<open>_HOLIDAY_COMPANY\<close> to every employee; over any list of resolved events,
  a day is in an employee's Holiday list exactly when it is a day of an event with a scope
  token that covers the employee's location. With the roster Alice (US) and Bob (France),
  a US scope on 2024-07-04 yields \<open>H\<close> for Alice on that day and no entry for Bob.
\<close>

theorem holiday_scope_targets:
  assumes "i < length employees"
  shows
    "Holiday (populate employees [(e, [''_HOLIDAY_US''])] ! i) =
        (if location (employees ! i) = ''US'' then event_dates e else [])
     \<and> Holiday (populate employees [(e, [''_HOLIDAY_FRANCE''])] ! i) =
        (if location (employees ! i) = ''France'' then event_dates e else [])
     \<and> Holiday (populate employees [(e, [''_HOLIDAY_COMPANY''])] ! i) = event_dates e
     \<and> (d \<in> set (Holiday (populate employees evs ! i)) \<longleftrightarrow>
          (\<exists>(e', ts) \<in> set evs. start_date e' \<le> d \<and> d < end_date e' \<and>
             (''_HOLIDAY_COMPANY'' \<in> set ts
              \<or> (''_HOLIDAY_US'' \<in> set ts \<and> location (employees ! i) = ''US'')
              \<or> (''_HOLIDAY_FRANCE'' \<in> set ts \<and> location (employees ! i) = ''France''))))
     \<and> status_of (main_steps [alice, bob] [us_holiday] [''Independence Day'' \<mapsto> [''_HOLIDAY_US'']]
            (ymd2ord 2024 7 1) (ymd2ord 2024 12 28)) ''Alice'' (ymd2ord 2024 7 4) = Some ''H''
     \<and> status_of (main_steps [alice, bob] [us_holiday] [''Independence Day'' \<mapsto> [''_HOLIDAY_US'']]
            (ymd2ord 2024 7 1) (ymd2ord 2024 12 28)) ''Bob'' (ymd2ord 2024 7 4) = None"
proof -
  have 1: "status_of (main_steps [alice, bob] [us_holiday] [''Independence Day'' \<mapsto> [''_HOLIDAY_US'']]
            (ymd2ord 2024 7 1) (ymd2ord 2024 12 28)) ''Alice'' (ymd2ord 2024 7 4) = Some ''H''"
    by code_simp
  have 2: "status_of (main_steps [alice, bob] [us_holiday] [''Independence Day'' \<mapsto> [''_HOLIDAY_US'']]
            (ymd2ord 2024 7 1) (ymd2ord 2024 12 28)) ''Bob'' (ymd2ord 2024 7 4) = None"
    by code_simp
  have 3: "d \<in> set (Holiday (populate employees evs ! i)) \<longleftrightarrow>
          (\<exists>(e', ts) \<in> set evs. start_date e' \<le> d \<and> d < end_date e' \<and>
             (''_HOLIDAY_COMPANY'' \<in> set ts
              \<or> (''_HOLIDAY_US'' \<in> set ts \<and> location (employees ! i) = ''US'')
              \<or> (''_HOLIDAY_FRANCE'' \<in> set ts \<and> location (employees ! i) = ''France'')))"
    using assms
    by (simp add: populate_nth set_holiday_of set_event_dates scope_covers_def) blast
  show ?thesis
    using assms by (simp add: 1 2 3 populate_single scope_covers_def)
qed

text \<open>
  Alice, located in the US, under a US scope and under a France scope.
\<close>

theorem holiday_scope_targets_witness:
  "(0::nat) < length [alice, bob]
   \<and> Holiday (populate [alice, bob] [(us_holiday, [''_HOLIDAY_US''])] ! 0) = [ymd2ord 2024 7 4]
   \<and> Holiday (populate [alice, bob] [(us_holiday, [''_HOLIDAY_FRANCE''])] ! 0) = []"
proof -
  have h: "(0::nat) < length [alice, bob]" by simp
  have d: "event_dates us_holiday = [ymd2ord 2024 7 4]" by code_simp
  from holiday_scope_targets [OF h, of us_holiday]
  show ?thesis by (simp add: d alice_def)
qed

text \<open>
  \<^bold>\<open>C7.\<close> Whatever the type of an event is, when one of its resolved tokens is a holiday
  scope that covers an employee, the matrix of the run shows \<open>H\<close> for that employee on
  every day of the event (names of the roster distinct); and the holiday branch of the
  token loop does not read the type at all.
\<close>

theorem holiday_ignores_type:
  assumes "distinct (map name employees)" and "emp \<in> set employees"
    and "e \<in> set all_events" and "start_date e < report_end" and "end_date e > report_start"
    and "m (ev_name e) = Some ts" and "tag \<in> set ts"
    and "tag = ''_HOLIDAY_COMPANY'' \<or> (tag = ''_HOLIDAY_US'' \<and> location emp = ''US'')
           \<or> (tag = ''_HOLIDAY_FRANCE'' \<and> location emp = ''France'')"
    and "start_date e \<le> d" and "d < end_date e"
  shows "status_of (main_steps employees all_events m report_start report_end) (name emp) d = Some ''H''
         \<and> apply_token emap (e\<lparr>ev_type := ty\<rparr>) emps tag = apply_token emap e emps tag"
proof -
  let ?evs = "events_in_range report_start report_end all_events"
  from assms(2) obtain i where i: "i < length employees" and emp: "emp = employees ! i"
    by (auto simp: in_set_conv_nth)
  have in_range: "e \<in> set ?evs"
    using assms(3,4,5) by (simp add: events_in_range_def)
  then have ne: "?evs \<noteq> []" by auto
  have "(e, ts) \<in> set (map (resolve m) ?evs)"
    using in_range assms(6) by (force simp: resolve_def)
  moreover have "scope_covers tag (location emp)"
    using assms(8) by (auto simp: scope_covers_def)
  moreover have "d \<in> set (event_dates e)"
    using assms(9,10) by (simp add: set_event_dates)
  ultimately have "d \<in> set (holiday_of (location (employees ! i)) (map (resolve m) ?evs))"
    using assms(7) unfolding set_holiday_of emp by blast
  then have 1: "status_of (main_steps employees all_events m report_start report_end) (name emp) d = Some ''H''"
    unfolding emp by (simp add: status_of_main_steps [OF assms(1) i ne])
  have "event_dates (e\<lparr>ev_type := ty\<rparr>) = event_dates e"
    by (simp add: event_dates_def)
  with assms(8) have 2: "apply_token emap (e\<lparr>ev_type := ty\<rparr>) emps tag = apply_token emap e emps tag"
    by (auto simp: apply_token_def)
  from 1 2 show ?thesis ..
qed

text \<open>
  An event of the PTO feed (type \<open>P\<close>) resolved to the US scope marks Alice \<open>H\<close>.
\<close>

theorem holiday_ignores_type_witness:
  "distinct (map name [alice, bob]) \<and> alice \<in> set [alice, bob] \<and> us_holiday \<in> set [us_holiday]
   \<and> start_date us_holiday < ymd2ord 2024 12 28 \<and> end_date us_holiday > ymd2ord 2024 7 1
   \<and> [''Independence Day'' \<mapsto> [''_HOLIDAY_US'']] (ev_name us_holiday) = Some [''_HOLIDAY_US'']
   \<and> ''_HOLIDAY_US'' \<in> set [''_HOLIDAY_US''] \<and> location alice = ''US''
   \<and> start_date us_holiday \<le> ymd2ord 2024 7 4 \<and> ymd2ord 2024 7 4 < end_date us_holiday
   \<and> ev_type us_holiday = ''P''
   \<and> status_of (main_steps [alice, bob] [us_holiday] [''Independence Day'' \<mapsto> [''_HOLIDAY_US'']]
         (ymd2ord 2024 7 1) (ymd2ord 2024 12 28)) (name alice) (ymd2ord 2024 7 4) = Some ''H''"
proof -
  have h1: "distinct (map name [alice, bob])" by (simp add: alice_def bob_def)
  have h2: "alice \<in> set [alice, bob]" by simp
  have h3: "us_holiday \<in> set [us_holiday]" by simp
  have h4: "start_date us_holiday < ymd2ord 2024 12 28" by code_simp
  have h5: "end_date us_holiday > ymd2ord 2024 7 1" by code_simp
  have h6: "[''Independence Day'' \<mapsto> [''_HOLIDAY_US'']] (ev_name us_holiday) = Some [''_HOLIDAY_US'']"
    by (simp add: us_holiday_def)
  have h7: "''_HOLIDAY_US'' \<in> set [''_HOLIDAY_US'']" by simp
  have h8: "''_HOLIDAY_US'' = ''_HOLIDAY_COMPANY'' \<or> (''_HOLIDAY_US'' = ''_HOLIDAY_US'' \<and> location alice = ''US'')
           \<or> (''_HOLIDAY_US'' = ''_HOLIDAY_FRANCE'' \<and> location alice = ''France'')"
    by (simp add: alice_def)
  have h9: "start_date us_holiday \<le> ymd2ord 2024 7 4" by code_simp
  have h10: "ymd2ord 2024 7 4 < end_date us_holiday" by code_simp
  have ty: "ev_type us_holiday = ''P''" by (simp add: us_holiday_def)
  have loc: "location alice = ''US''" by (simp add: alice_def)
  from holiday_ignores_type [where m = "[''Independence Day'' \<mapsto> [''_HOLIDAY_US'']]"
      and e = us_holiday, OF h1 h2 h3 h4 h5 h6 h7 h8 h9 h10]
  have "status_of (main_steps [alice, bob] [us_holiday] [''Independence Day'' \<mapsto> [''_HOLIDAY_US'']]
         (ymd2ord 2024 7 1) (ymd2ord 2024 12 28)) (name alice) (ymd2ord 2024 7 4) = Some ''H''"
    by simp
  with h1 h2 h3 h4 h5 h6 h7 h9 h10 ty loc show ?thesis by blast
qed

section \<open>Events without targets\<close>

text \<open>
  \<^bold>\<open>C8.\<close> The claim that the name of every event with an empty target list is recorded as
  unmatched fails: a title that the resolver maps to the empty list (what its prompt asks
  for when a title belongs to nobody) is not added to \<^verbatim>\<open>unmatched_event_names\<close>; only a
  title with no entry in the mapping is.
\<close>

theorem empty_list_not_unmatched:
  "team_lunch \<in> set (events_in_range (ymd2ord 2024 3 1) (ymd2ord 2024 8 28) [team_lunch])
   \<and> [''Team Lunch'' \<mapsto> []] (ev_name team_lunch) = Some []
   \<and> unmatched_of (main_steps [alice, bob] [team_lunch] [''Team Lunch'' \<mapsto> []]
        (ymd2ord 2024 3 1) (ymd2ord 2024 8 28)) = Some {}"
proof -
  have "events_in_range (ymd2ord 2024 3 1) (ymd2ord 2024 8 28) [team_lunch] = [team_lunch]"
    by code_simp
  moreover have "unmatched_of (main_steps [alice, bob] [team_lunch] [''Team Lunch'' \<mapsto> []]
        (ymd2ord 2024 3 1) (ymd2ord 2024 8 28)) = Some {}"
    by code_simp
  ultimately show ?thesis by (simp add: team_lunch_def)
qed

text \<open>
  \<^bold>\<open>C8, as amended.\<close> An event of the window whose title has no entry in the mapping, or is
  mapped to the empty list, contributes nothing: the loop body of step 7 leaves the
  employees unchanged for it, so the lists are those of the run without the event. The run
  goes on to produce its output, and the event's title is in the unmatched set exactly when
  the title has no entry in the mapping.
\<close>

theorem no_targets_no_entries:
  assumes "e \<in> set (events_in_range report_start report_end all_events)"
    and "m (ev_name e) = None \<or> m (ev_name e) = Some []"
  shows "unmatched_of (main_steps employees all_events m report_start report_end)
             = Some (snd (associate m (events_in_range report_start report_end all_events) {}))
         \<and> (ev_name e \<in> snd (associate m (events_in_range report_start report_end all_events) {})
               \<longleftrightarrow> m (ev_name e) = None)
         \<and> populate employees (fst (associate m (events_in_range report_start report_end all_events) {})) =
             populate employees
               (fst (associate m (removeAll e (events_in_range report_start report_end all_events)) {}))
         \<and> apply_event emap emps (e, case m (ev_name e) of Some ts \<Rightarrow> ts | None \<Rightarrow> []) = emps"
proof -
  let ?evs = "events_in_range report_start report_end all_events"
  have ne: "?evs \<noteq> []" using assms(1) by auto
  have nil: "snd (resolve m e) = []"
    using assms(2) by (auto simp: resolve_def)
  have 1: "unmatched_of (main_steps employees all_events m report_start report_end)
             = Some (snd (associate m ?evs {}))"
    using ne by (simp add: main_steps_eq associate_eq)
  have 2: "ev_name e \<in> snd (associate m ?evs {}) \<longleftrightarrow> m (ev_name e) = None"
    using assms(1) by (auto simp: associate_eq)
  have 3: "populate employees (fst (associate m ?evs {})) =
             populate employees (fst (associate m (removeAll e ?evs) {}))"
    by (simp add: associate_eq populate_removeAll [OF nil])
  have 4: "apply_event emap emps (e, case m (ev_name e) of Some ts \<Rightarrow> ts | None \<Rightarrow> []) = emps"
    using assms(2) by (auto simp: apply_event_def)
  from 1 2 3 4 show ?thesis by blast
qed

text \<open>
  ``Team Lunch'' has no entry in the mapping: it is reported as unmatched, and the lists are
  those of ``Site Visit'' alone.
\<close>

theorem no_targets_no_entries_witness:
  "team_lunch \<in> set (events_in_range (ymd2ord 2024 3 1) (ymd2ord 2024 8 28) [site_visit, team_lunch])
   \<and> [''Site Visit'' \<mapsto> [''Alice'', ''Bob'']] (ev_name team_lunch) = None
   \<and> unmatched_of (main_steps [alice, bob] [site_visit, team_lunch] [''Site Visit'' \<mapsto> [''Alice'', ''Bob'']]
         (ymd2ord 2024 3 1) (ymd2ord 2024 8 28)) = Some {''Team Lunch''}
   \<and> populate [alice, bob] (fst (associate [''Site Visit'' \<mapsto> [''Alice'', ''Bob'']]
         (events_in_range (ymd2ord 2024 3 1) (ymd2ord 2024 8 28) [site_visit, team_lunch]) {}))
       = populate [alice, bob] [(site_visit, [''Alice'', ''Bob''])]"
proof -
  let ?m = "[''Site Visit'' \<mapsto> [''Alice'', ''Bob'']]"
  have evs: "events_in_range (ymd2ord 2024 3 1) (ymd2ord 2024 8 28) [site_visit, team_lunch]
               = [site_visit, team_lunch]"
    by code_simp
  have h1: "team_lunch \<in> set (events_in_range (ymd2ord 2024 3 1) (ymd2ord 2024 8 28) [site_visit, team_lunch])"
    by (simp add: evs)
  have h2': "?m (ev_name team_lunch) = None" by (simp add: team_lunch_def)
  then have h2: "?m (ev_name team_lunch) = None \<or> ?m (ev_name team_lunch) = Some []" ..
  have rm: "removeAll team_lunch [site_visit, team_lunch] = [site_visit]"
    by (simp add: site_visit_def team_lunch_def)
  have as: "fst (associate ?m [site_visit] {}) = [(site_visit, [''Alice'', ''Bob''])]"
    by (simp add: site_visit_def)
  have u: "snd (associate ?m [site_visit, team_lunch] {}) = {''Team Lunch''}"
    by (simp add: site_visit_def team_lunch_def)
  note w = no_targets_no_entries [where m = ?m and e = team_lunch and employees = "[alice, bob]"
      and emap = Map.empty and emps = "[]", OF h1 h2]
  from w have "unmatched_of (main_steps [alice, bob] [site_visit, team_lunch] ?m
         (ymd2ord 2024 3 1) (ymd2ord 2024 8 28))
        = Some (snd (associate ?m (events_in_range (ymd2ord 2024 3 1) (ymd2ord 2024 8 28)
             [site_visit, team_lunch]) {}))"
    by (rule conjunct1)
  then have a: "unmatched_of (main_steps [alice, bob] [site_visit, team_lunch] ?m
         (ymd2ord 2024 3 1) (ymd2ord 2024 8 28)) = Some {''Team Lunch''}"
    by (simp only: evs u)
  from w have "populate [alice, bob] (fst (associate ?m
         (events_in_range (ymd2ord 2024 3 1) (ymd2ord 2024 8 28) [site_visit, team_lunch]) {}))
       = populate [alice, bob] (fst (associate ?m (removeAll team_lunch
         (events_in_range (ymd2ord 2024 3 1) (ymd2ord 2024 8 28) [site_visit, team_lunch])) {}))"
    by blast
  then have "populate [alice, bob] (fst (associate ?m
         (events_in_range (ymd2ord 2024 3 1) (ymd2ord 2024 8 28) [site_visit, team_lunch]) {}))
       = populate [alice, bob] [(site_visit, [''Alice'', ''Bob''])]"
    by (simp only: evs rm as)
  note a this
  with h1 h2' show ?thesis by blast
qed

section \<open>Applying the events twice\<close>

text \<open>
  \<^bold>\<open>C9.\<close> Feeding every event twice, as a second copy of the whole list or each event
  doubled in place, produces the same result as feeding it once: the same unmatched set
  and the same matrix, where an (employee, day) has one entry however many times a scope or
  an event reaches it. One application of a holiday scope appends the days of the event,
  each of them once, to the Holiday list of each employee it covers, once per employee.
\<close>

theorem matrix_idempotent:
  "main_steps employees (all_events @ all_events) m report_start report_end
     = main_steps employees all_events m report_start report_end
   \<and> main_steps employees (concat (map (\<lambda>e. [e, e]) all_events)) m report_start report_end
     = main_steps employees all_events m report_start report_end
   \<and> distinct (event_dates e)
   \<and> map Holiday (apply_token emap e emps ''_HOLIDAY_US'')
     = map (\<lambda>emp. Holiday emp @ (if location emp = ''US'' then event_dates e else [])) emps
   \<and> map Holiday (apply_token emap e emps ''_HOLIDAY_FRANCE'')
     = map (\<lambda>emp. Holiday emp @ (if location emp = ''France'' then event_dates e else [])) emps
   \<and> map Holiday (apply_token emap e emps ''_HOLIDAY_COMPANY'')
     = map (\<lambda>emp. Holiday emp @ event_dates e) emps"
proof -
  have 1: "main_steps employees (all_events @ all_events) m report_start report_end
     = main_steps employees all_events m report_start report_end"
    by (rule main_steps_set_cong) simp
  have 2: "main_steps employees (concat (map (\<lambda>e. [e, e]) all_events)) m report_start report_end
     = main_steps employees all_events m report_start report_end"
    by (rule main_steps_set_cong) auto
  have 3: "map Holiday (apply_token emap e emps ''_HOLIDAY_US'')
     = map (\<lambda>emp. Holiday emp @ (if location emp = ''US'' then event_dates e else [])) emps"
    by (simp add: apply_token_def)
  have 4: "map Holiday (apply_token emap e emps ''_HOLIDAY_FRANCE'')
     = map (\<lambda>emp. Holiday emp @ (if location emp = ''France'' then event_dates e else [])) emps"
    by (simp add: apply_token_def)
  have 5: "map Holiday (apply_token emap e emps ''_HOLIDAY_COMPANY'')
     = map (\<lambda>emp. Holiday emp @ event_dates e) emps"
    by (simp add: apply_token_def)
  from 1 2 3 4 5 distinct_event_dates [of e] show ?thesis by blast
qed

text \<open>
  The ``Site Visit'' event given twice.
\<close>

theorem matrix_idempotent_witness:
  "main_steps [alice, bob] ([site_visit] @ [site_visit]) [''Site Visit'' \<mapsto> [''Alice'']]
       (ymd2ord 2024 3 1) (ymd2ord 2024 8 28)
     = main_steps [alice, bob] [site_visit] [''Site Visit'' \<mapsto> [''Alice'']]
       (ymd2ord 2024 3 1) (ymd2ord 2024 8 28)"
  using matrix_idempotent [of "[alice, bob]" "[site_visit]" "[''Site Visit'' \<mapsto> [''Alice'']]"
      "ymd2ord 2024 3 1" "ymd2ord 2024 8 28"]
  by (rule conjunct1)

section \<open>Unknown tokens\<close>

text \<open>
  \<^bold>\<open>C10.\<close> A token that is not one of the three holiday-scope markers and not the name of
  an employee of the roster is ignored: the token loop leaves the employees unchanged for
  it, the run is the run of the mapping with that token removed from every list, no error
  is raised, and an event of the window whose list holds the token is not in the unmatched
  set.
\<close>

theorem unknown_token_ignored:
  assumes "t \<noteq> ''_HOLIDAY_US''" and "t \<noteq> ''_HOLIDAY_FRANCE''" and "t \<noteq> ''_HOLIDAY_COMPANY''"
    and "t \<notin> name ` set employees"
  shows "main_steps employees all_events m report_start report_end
           = main_steps employees all_events (\<lambda>n. map_option (filter (\<lambda>x. x \<noteq> t)) (m n))
               report_start report_end
         \<and> (\<forall>err. main_steps employees all_events m report_start report_end \<noteq> Inl err)
         \<and> (\<forall>e ts u. e \<in> set (events_in_range report_start report_end all_events)
               \<longrightarrow> m (ev_name e) = Some ts \<longrightarrow> t \<in> set ts
               \<longrightarrow> unmatched_of (main_steps employees all_events m report_start report_end) = Some u
               \<longrightarrow> ev_name e \<notin> u)
         \<and> apply_token (employee_map (reset_lists employees)) ev emps t = emps"
proof -
  let ?evs = "events_in_range report_start report_end all_events"
  have ns: "\<not> is_scope t" using assms(1-3) by (simp add: is_scope_def)
  have none: "employee_map employees t = None"
    using assms(4) by (simp add: employee_map_None)
  have "populate employees (map (resolve (drop_token t m)) ?evs) = populate employees (map (resolve m) ?evs)"
    by (rule populate_cong)
       (simp_all add: typed_of_drop_token [of "employee_map employees" t, OF none]
          holiday_of_drop_token [OF ns])
  then have "matrix_of employees (map (resolve (drop_token t m)) ?evs)
              = matrix_of employees (map (resolve m) ?evs)"
    by (simp only: matrix_of_def)
  moreover have "drop_token t m n = None \<longleftrightarrow> m n = None" for n
    by (simp add: drop_token_def)
  ultimately have 1: "main_steps employees all_events m report_start report_end
           = main_steps employees all_events (drop_token t m) report_start report_end"
    by (simp add: main_steps_eq)
  have 2: "\<forall>err. main_steps employees all_events m report_start report_end \<noteq> Inl err"
    by (simp add: main_steps_eq)
  have 3: "\<forall>e ts u. e \<in> set ?evs \<longrightarrow> m (ev_name e) = Some ts \<longrightarrow> t \<in> set ts
               \<longrightarrow> unmatched_of (main_steps employees all_events m report_start report_end) = Some u
               \<longrightarrow> ev_name e \<notin> u"
    by (auto simp: main_steps_eq split: if_splits)
  have "employee_map (reset_lists employees) t = None"
    using none by (simp add: employee_map_reset)
  then have 4: "apply_token (employee_map (reset_lists employees)) ev emps t = emps"
    using assms(1-3) by (simp add: apply_token_def)
  from 1 2 3 4 show ?thesis
    unfolding drop_token_def by blast
qed

text \<open>
  ``Zed'' is nobody's name: the run is that of the mapping without it.
\<close>

theorem unknown_token_ignored_witness:
  "''Zed'' \<notin> name ` set [alice, bob]
   \<and> site_visit \<in> set (events_in_range (ymd2ord 2024 3 1) (ymd2ord 2024 8 28) [site_visit])
   \<and> [''Site Visit'' \<mapsto> [''Zed'', ''Bob'']] (ev_name site_visit) = Some [''Zed'', ''Bob'']
   \<and> main_steps [alice, bob] [site_visit] [''Site Visit'' \<mapsto> [''Zed'', ''Bob'']]
         (ymd2ord 2024 3 1) (ymd2ord 2024 8 28)
       = main_steps [alice, bob] [site_visit]
           (\<lambda>n. map_option (filter (\<lambda>x. x \<noteq> ''Zed'')) ([''Site Visit'' \<mapsto> [''Zed'', ''Bob'']] n))
         (ymd2ord 2024 3 1) (ymd2ord 2024 8 28)
   \<and> unmatched_of (main_steps [alice, bob] [site_visit] [''Site Visit'' \<mapsto> [''Zed'', ''Bob'']]
         (ymd2ord 2024 3 1) (ymd2ord 2024 8 28)) = Some {}"
proof -
  have h1: "''Zed'' \<noteq> ''_HOLIDAY_US''" and h2: "''Zed'' \<noteq> ''_HOLIDAY_FRANCE''"
    and h3: "''Zed'' \<noteq> ''_HOLIDAY_COMPANY''" by simp_all
  have h4: "''Zed'' \<notin> name ` set [alice, bob]" by (simp add: alice_def bob_def)
  have e: "site_visit \<in> set (events_in_range (ymd2ord 2024 3 1) (ymd2ord 2024 8 28) [site_visit])"
    by code_simp
  have m: "[''Site Visit'' \<mapsto> [''Zed'', ''Bob'']] (ev_name site_visit) = Some [''Zed'', ''Bob'']"
    by (simp add: site_visit_def)
  have u: "unmatched_of (main_steps [alice, bob] [site_visit] [''Site Visit'' \<mapsto> [''Zed'', ''Bob'']]
         (ymd2ord 2024 3 1) (ymd2ord 2024 8 28)) = Some {}"
    by code_simp
  from unknown_token_ignored [OF h1 h2 h3 h4, where m = "[''Site Visit'' \<mapsto> [''Zed'', ''Bob'']]"
      and all_events = "[site_visit]" and report_start = "ymd2ord 2024 3 1"
      and report_end = "ymd2ord 2024 8 28"]
  have "main_steps [alice, bob] [site_visit] [''Site Visit'' \<mapsto> [''Zed'', ''Bob'']]
         (ymd2ord 2024 3 1) (ymd2ord 2024 8 28)
       = main_steps [alice, bob] [site_visit]
           (\<lambda>n. map_option (filter (\<lambda>x. x \<noteq> ''Zed'')) ([''Site Visit'' \<mapsto> [''Zed'', ''Bob'']] n))
         (ymd2ord 2024 3 1) (ymd2ord 2024 8 28)"
    by (rule conjunct1)
  with h4 e m u show ?thesis by blast
qed

section \<open>Calendar arithmetic\<close>












lemma is_leap_closed:
  assumes "0 \<le> B" "B \<le> 3" "0 \<le> C" "C \<le> 24" "0 \<le> E" "E \<le> 3"
  shows "is_leap (400 * A + 100 * B + 4 * C + E + 1) \<longleftrightarrow> E = 3 \<and> (C \<noteq> 24 \<or> B = 3)"
proof -
  define y where "y = 400 * A + 100 * B + 4 * C + E + 1"
  have m4: "y mod 4 = (E + 1) mod 4"
  proof -
    have "y = (E + 1) + 4 * (100 * A + 25 * B + C)" by (simp add: y_def)
    then show ?thesis by (metis mod_mult_self2)
  qed
  have m100: "y mod 100 = (4 * C + E + 1) mod 100"
  proof -
    have "y = (4 * C + E + 1) + 100 * (4 * A + B)" by (simp add: y_def)
    then show ?thesis by (metis mod_mult_self2)
  qed
  have m400: "y mod 400 = (100 * B + 4 * C + E + 1) mod 400"
  proof -
    have "y = (100 * B + 4 * C + E + 1) + 400 * A" by (simp add: y_def)
    then show ?thesis by (metis mod_mult_self2)
  qed
  have e4: "(E + 1) mod 4 = 0 \<longleftrightarrow> E = 3"
  proof (cases "E = 3")
    case True then show ?thesis by simp
  next
    case False
    with assms have "0 < E + 1" "E + 1 < 4" by auto
    then have "(E + 1) mod 4 = E + 1" by simp
    with False assms show ?thesis by simp
  qed
  have e100: "(4 * C + E + 1) mod 100 = 0 \<longleftrightarrow> E = 3 \<and> C = 24"
  proof (cases "E = 3 \<and> C = 24")
    case True then show ?thesis by simp
  next
    case False
    with assms have "0 < 4 * C + E + 1" "4 * C + E + 1 < 100" by auto
    then have "(4 * C + E + 1) mod 100 = 4 * C + E + 1" by simp
    with False assms show ?thesis by auto
  qed
  have e400: "(100 * B + 4 * C + E + 1) mod 400 = 0 \<longleftrightarrow> E = 3 \<and> C = 24 \<and> B = 3"
  proof (cases "E = 3 \<and> C = 24 \<and> B = 3")
    case True then show ?thesis by simp
  next
    case False
    with assms have "0 < 100 * B + 4 * C + E + 1" "100 * B + 4 * C + E + 1 < 400" by auto
    then have "(100 * B + 4 * C + E + 1) mod 400 = 100 * B + 4 * C + E + 1" by simp
    with False assms show ?thesis by auto
  qed
  show ?thesis
    unfolding y_def [symmetric] is_leap_def m4 m100 m400 e4 e100 e400 by auto
qed













subsection \<open>The keys determine the month and the week\<close>







section \<open>Grouping by insertion-ordered dictionaries\<close>







lemma group_by_Nil [simp]: "group_by key [] = []"
  by (simp add: group_by_def)








section \<open>The layout loops\<close>







subsection \<open>The weekdays and their groups\<close>











section \<open>Columns and header spans of the grid\<close>





end
